theory Spec2Isabelle
  imports Complex_Main "HOL-Library.Sublist"
begin

section \<open>The credit-scoring engine of the book-intake flow\<close>

text \<open>
  The development embeds the deterministic part of the book-condition flow: the four
  score calculators, the aggregator with its rounding, and the function that
  \<open>assessBookConditionFlow\<close> runs once the visual assessment has arrived.

  Numbers. In the calculators and in the flow a TypeScript \<open>number\<close> is an exact \<open>real\<close>.
  The feature scores are only compared with thresholds, the condition score and the bonus
  are multiples of one half (\<open>calculateConditionScore_halves\<close>,
  \<open>calculateBonusFactors_halves\<close>), the demand score is 1, 2 or 3, and the aggregator
  rounds to hundredths. The aggregator is given a second time in binary64 arithmetic,
  \<open>calculateFinalCredits_double\<close>. On every quadruple that the flow passes to it the
  program's doubles are the doubles nearest to the decimals computed in exact arithmetic
  (\<open>flow_credits_as_doubles\<close>); on other quadruples the two can differ.

  Strings. A string is a \<open>char list\<close>. The \<open>toLowerCase\<close> of the flow lowers the letters
  A to Z and leaves every other character as it is, which is what the language does on
  ASCII text. \<open>calculateDemandScore_utf16\<close> is the demand calculator on UTF-16 code units,
  with the language's lower-casing as an argument; the two give the same score wherever
  the lower-casings agree (\<open>calculateDemandScore_as_utf16\<close>).

  Schema. The function of the flow accepts any answer of the prompt. The bounds that the
  output schema puts on the prompt's answer and on the flow's result are added in
  \<open>assessBookConditionFlow_checked\<close>, which returns what the function returns on every
  answer within the schema (\<open>checked_flow_in_schema\<close>).
\<close>

subsection \<open>Built-in operations the engine uses\<close>

text \<open>\<open>Math.round\<close>: the nearest integer, a tie going to the larger one.\<close>

definition Math_round :: "real \<Rightarrow> real" where
  "Math_round x = of_int \<lfloor>x + 1 / 2\<rfloor>"

definition lowerChar :: "char \<Rightarrow> char" where
  "lowerChar c =
     (let n = (of_char c :: nat) in if 65 \<le> n \<and> n \<le> 90 then char_of (n + 32) else c)"

definition toLowerCase :: "string \<Rightarrow> string" where
  "toLowerCase s = map lowerChar s"

text \<open>\<open>s.includes(t)\<close>: \<open>t\<close> occurs in \<open>s\<close> as a contiguous run of characters.\<close>

fun String_includes :: "'a list \<Rightarrow> 'a list \<Rightarrow> bool" where
  "String_includes s [] = True"
| "String_includes [] (c # t) = False"
| "String_includes (d # s) (c # t) = (prefix (c # t) (d # s) \<or> String_includes s (c # t))"

subsection \<open>Data model\<close>

datatype AnnotationSeverity = none | minor | heavy

text \<open>
  The seven fields that \<open>calculateConditionScore\<close> receives are the first seven fields
  of the output schema, so the schema's record extends this one.
\<close>

record VisualFeatures =
  coverCondition :: real
  spineCondition :: real
  pagesCondition :: real
  bindingIntegrity :: real
  cleanliness :: real
  hasAnnotations :: bool
  annotationSeverity :: AnnotationSeverity

record CreditBreakdown =
  conditionCredits :: real
  demandCredits :: real
  rarityCredits :: real
  bonusCredits :: real

record BonusFlags =
  isFirstTimeDonor :: bool
  isThemeEvent :: bool
  isNewBook :: bool
  hasCraftMatch :: bool

subsection \<open>The score calculators\<close>

text \<open>
  The local constants of \<open>calculateConditionScore\<close>, each as a function of the
  assessment it is computed from.
\<close>

definition coverScore :: "VisualFeatures \<Rightarrow> real" where
  "coverScore assessment =
     (if coverCondition assessment \<ge> 9 then 1
      else if coverCondition assessment \<ge> 7 then 0 else - 1)"

definition spineScore :: "VisualFeatures \<Rightarrow> real" where
  "spineScore assessment =
     (if spineCondition assessment \<ge> 9 then 1
      else if spineCondition assessment \<ge> 7 then 0 else - 1)"

definition pageScore :: "VisualFeatures \<Rightarrow> real" where
  "pageScore assessment = (if pagesCondition assessment \<ge> 8 then 1 else - 1)"

definition annotationScore :: "VisualFeatures \<Rightarrow> real" where
  "annotationScore assessment =
     (if annotationSeverity assessment = none then 0
      else if annotationSeverity assessment = minor then - 0.5 else - 1)"

definition completenessScore :: real where
  "completenessScore = 1"

definition calculateConditionScore :: "VisualFeatures \<Rightarrow> real" where
  "calculateConditionScore assessment =
     (let baseScore = max 0 (3 + coverScore assessment + spineScore assessment
                             + pageScore assessment + annotationScore assessment
                             + completenessScore)
      in min 5 (max 0 baseScore))"

definition popularBooks :: "string list" where
  "popularBooks =
     [''the alchemist'', ''harry potter'', ''the great gatsby'', ''to kill a mockingbird'',
      ''pride and prejudice'', ''the catcher in the rye'', ''1984'', ''the lord of the rings'']"

definition trendingGenres :: "string list" where
  "trendingGenres = [''fantasy'', ''mystery'', ''thriller'', ''romance'', ''self-help'']"

text \<open>An optional string is absent (\<open>None\<close>) or present; \<open>!bookTitle\<close> holds of an absent
  and of an empty title.\<close>

definition calculateDemandScore :: "string option \<Rightarrow> string option \<Rightarrow> real" where
  "calculateDemandScore bookTitle bookAuthor =
     (case bookTitle of
        None \<Rightarrow> 1
      | Some t \<Rightarrow>
          if t = [] then 1
          else
            let title = toLowerCase t in
            if list_ex (\<lambda>book. String_includes title book) popularBooks then 3
            else if list_ex (\<lambda>genre. String_includes title genre) trendingGenres then 2
            else 1)"

definition calculateRarityScore :: "string option \<Rightarrow> string option \<Rightarrow> real" where
  "calculateRarityScore bookTitle bookAuthor = 0"

definition calculateBonusFactors :: "BonusFlags \<Rightarrow> real" where
  "calculateBonusFactors input =
     (let bonus = 0;
          bonus = (if isFirstTimeDonor input then bonus + 1 else bonus);
          bonus = (if isThemeEvent input then bonus + 0.5 else bonus);
          bonus = (if isNewBook input then bonus + 2 else bonus);
          bonus = (if hasCraftMatch input then bonus + 1 else bonus)
      in min 5 bonus)"

definition calculateFinalCredits :: "real \<Rightarrow> real \<Rightarrow> real \<Rightarrow> real \<Rightarrow> real \<times> CreditBreakdown" where
  "calculateFinalCredits conditionScore demandScore rarityScore bonusFactors =
     (let conditionCredits' = conditionScore * 0.5;
          demandCredits' = demandScore * 0.3;
          rarityCredits' = rarityScore * 0.1;
          bonusCredits' = bonusFactors;
          finalCredits = conditionCredits' + demandCredits' + rarityCredits' + bonusCredits'
      in (Math_round (finalCredits * 100) / 100,
          \<lparr> conditionCredits = Math_round (conditionCredits' * 100) / 100,
            demandCredits = Math_round (demandCredits' * 100) / 100,
            rarityCredits = Math_round (rarityCredits' * 100) / 100,
            bonusCredits = Math_round (bonusCredits' * 100) / 100 \<rparr>))"

subsection \<open>The flow\<close>

record AssessBookConditionInput = BonusFlags +
  photoDataUris :: "(string \<times> string) list"
  description :: string
  bookTitle :: "string option"
  bookAuthor :: "string option"

record AssessBookConditionOutput = VisualFeatures +
  isComplete :: bool
  shouldReject :: bool
  conditionScore :: real
  demandScore :: real
  rarityScore :: real
  bonusFactors :: real
  finalCredits :: real
  creditBreakdown :: CreditBreakdown
  justification :: string

datatype flow_error = NoOutput

definition newline :: string where
  "newline = [CHR 0x0A]"

text \<open>The bullet character of the breakdown lines, in UTF-8.\<close>

definition bullet :: string where
  "bullet = [CHR 0xE2, CHR 0x80, CHR 0xA2]"

text \<open>
  The flow awaits the prompt and then computes. The prompt's answer is the argument
  \<open>response\<close>, \<open>None\<close> when the prompt gave no output. The template literal turns
  numbers into text with the language's own conversion, the argument \<open>str\<close>.
\<close>

definition assessBookConditionFlow ::
  "(real \<Rightarrow> string) \<Rightarrow> AssessBookConditionOutput option \<Rightarrow> AssessBookConditionInput
     \<Rightarrow> flow_error + AssessBookConditionOutput" where
  "assessBookConditionFlow str response input =
     (case response of
        None \<Rightarrow> Inl NoOutput
      | Some output \<Rightarrow>
          if shouldReject output \<or> \<not> isComplete output then
            Inr (output\<lparr>
              conditionScore := 0,
              demandScore := 0,
              rarityScore := 0,
              bonusFactors := 0,
              finalCredits := 0,
              creditBreakdown := \<lparr> conditionCredits = 0, demandCredits = 0,
                                   rarityCredits = 0, bonusCredits = 0 \<rparr>,
              justification := justification output
                @ '' - Book rejected due to severe damage or missing pages.'' \<rparr>)
          else
            let conditionScore' = calculateConditionScore
                  \<lparr> coverCondition = coverCondition output,
                    spineCondition = spineCondition output,
                    pagesCondition = pagesCondition output,
                    bindingIntegrity = bindingIntegrity output,
                    cleanliness = cleanliness output,
                    hasAnnotations = hasAnnotations output,
                    annotationSeverity = annotationSeverity output \<rparr>;
                demandScore' = calculateDemandScore (bookTitle input) (bookAuthor input);
                rarityScore' = calculateRarityScore (bookTitle input) (bookAuthor input);
                bonusFactors' = calculateBonusFactors
                  \<lparr> isFirstTimeDonor = isFirstTimeDonor input,
                    isThemeEvent = isThemeEvent input,
                    isNewBook = isNewBook input,
                    hasCraftMatch = hasCraftMatch input \<rparr>;
                (finalCredits', breakdown) =
                  calculateFinalCredits conditionScore' demandScore' rarityScore' bonusFactors';
                enhancedJustification =
                  justification output @ newline @ newline @ ''CREDIT BREAKDOWN:'' @ newline
                  @ bullet @ '' Condition Score: '' @ str conditionScore' @ ''/5 (''
                    @ str (conditionCredits breakdown) @ '' credits)'' @ newline
                  @ bullet @ '' Demand Score: '' @ str demandScore' @ ''/3 (''
                    @ str (demandCredits breakdown) @ '' credits)'' @ newline
                  @ bullet @ '' Rarity Score: '' @ str rarityScore' @ ''/1 (''
                    @ str (rarityCredits breakdown) @ '' credits)'' @ newline
                  @ bullet @ '' Bonus Factors: '' @ str bonusFactors' @ '' (''
                    @ str (bonusCredits breakdown) @ '' credits)'' @ newline
                  @ bullet @ '' TOTAL: '' @ str finalCredits' @ '' credits''
            in Inr (output\<lparr>
                 conditionScore := conditionScore',
                 demandScore := demandScore',
                 rarityScore := rarityScore',
                 bonusFactors := bonusFactors',
                 finalCredits := finalCredits',
                 creditBreakdown := breakdown,
                 justification := enhancedJustification \<rparr>))"

section \<open>Notions used in the statements\<close>

text \<open>The two objects the flow builds from its arguments before it calls the calculators.\<close>

definition featuresOf :: "AssessBookConditionOutput \<Rightarrow> VisualFeatures" where
  "featuresOf v =
     \<lparr> coverCondition = coverCondition v, spineCondition = spineCondition v,
       pagesCondition = pagesCondition v, bindingIntegrity = bindingIntegrity v,
       cleanliness = cleanliness v, hasAnnotations = hasAnnotations v,
       annotationSeverity = annotationSeverity v \<rparr>"

definition flagsOf :: "AssessBookConditionInput \<Rightarrow> BonusFlags" where
  "flagsOf c =
     \<lparr> isFirstTimeDonor = isFirstTimeDonor c, isThemeEvent = isThemeEvent c,
       isNewBook = isNewBook c, hasCraftMatch = hasCraftMatch c \<rparr>"

text \<open>The rejection test of the flow.\<close>

definition rejected :: "AssessBookConditionOutput \<Rightarrow> bool" where
  "rejected v = (shouldReject v \<or> \<not> isComplete v)"

text \<open>
  The breakdown block, read off a returned assessment: the text that lists the four
  scores with their credit values and the total.
\<close>

definition breakdownBlock :: "(real \<Rightarrow> string) \<Rightarrow> AssessBookConditionOutput \<Rightarrow> string" where
  "breakdownBlock str r =
     newline @ newline @ ''CREDIT BREAKDOWN:'' @ newline
     @ bullet @ '' Condition Score: '' @ str (conditionScore r) @ ''/5 (''
       @ str (conditionCredits (creditBreakdown r)) @ '' credits)'' @ newline
     @ bullet @ '' Demand Score: '' @ str (demandScore r) @ ''/3 (''
       @ str (demandCredits (creditBreakdown r)) @ '' credits)'' @ newline
     @ bullet @ '' Rarity Score: '' @ str (rarityScore r) @ ''/1 (''
       @ str (rarityCredits (creditBreakdown r)) @ '' credits)'' @ newline
     @ bullet @ '' Bonus Factors: '' @ str (bonusFactors r) @ '' (''
       @ str (bonusCredits (creditBreakdown r)) @ '' credits)'' @ newline
     @ bullet @ '' TOTAL: '' @ str (finalCredits r) @ '' credits''"

text \<open>
  The condition score in the words of the specification: a clamp of the base 3 plus the
  contributions of cover, spine, pages and annotations plus 1.
\<close>

definition clamp :: "real \<Rightarrow> real \<Rightarrow> real \<Rightarrow> real" where
  "clamp x lo hi = (if x < lo then lo else if hi < x then hi else x)"

definition bandContribution :: "real \<Rightarrow> real" where
  "bandContribution x = (if 9 \<le> x then 1 else if 7 \<le> x \<and> x \<le> 8 then 0 else - 1)"

definition pageContribution :: "real \<Rightarrow> real" where
  "pageContribution x = (if 8 \<le> x then 1 else - 1)"

definition annotationPenalty :: "AnnotationSeverity \<Rightarrow> real" where
  "annotationPenalty s = (case s of none \<Rightarrow> 0 | minor \<Rightarrow> - 0.5 | heavy \<Rightarrow> - 1)"

subsection \<open>Example values\<close>

text \<open>
  The decimal text of a number with at most two decimals, without trailing zeros. In the
  examples it takes the place of the language's conversion of numbers to text.
\<close>

fun digits :: "nat \<Rightarrow> string" where
  "digits n =
     (if n < 10 then [char_of (48 + n)] else digits (n div 10) @ [char_of (48 + n mod 10)])"

definition numberToString :: "real \<Rightarrow> string" where
  "numberToString x =
     (let n = nat \<lfloor>\<bar>x\<bar> * 100 + 1 / 2\<rfloor>; whole = n div 100; frac = n mod 100
      in (if x < 0 \<and> 0 < n then ''-'' else [])
         @ digits whole
         @ (if frac = 0 then []
            else ''.'' @ [char_of (48 + frac div 10)]
                 @ (if frac mod 10 = 0 then [] else [char_of (48 + frac mod 10)])))"

definition exampleAssessment :: AssessBookConditionOutput where
  "exampleAssessment =
     \<lparr> coverCondition = 9, spineCondition = 9, pagesCondition = 8, bindingIntegrity = 7,
       cleanliness = 6, hasAnnotations = False, annotationSeverity = none,
       isComplete = True, shouldReject = False,
       conditionScore = 0, demandScore = 0, rarityScore = 0, bonusFactors = 0,
       finalCredits = 0,
       creditBreakdown = \<lparr> conditionCredits = 0, demandCredits = 0,
                           rarityCredits = 0, bonusCredits = 0 \<rparr>,
       justification = ''Clean copy.'' \<rparr>"

definition exampleInput :: AssessBookConditionInput where
  "exampleInput =
     \<lparr> isFirstTimeDonor = False, isThemeEvent = False, isNewBook = False,
       hasCraftMatch = False, photoDataUris = [(''Front Cover'', ''data:image/png;base64,AA=='')],
       description = ''paperback'', bookTitle = None, bookAuthor = None \<rparr>"

definition wornAnnotated :: AssessBookConditionOutput where
  "wornAnnotated =
     exampleAssessment\<lparr>bindingIntegrity := 2, cleanliness := 10, hasAnnotations := True\<rparr>"

section \<open>The aggregator in double precision\<close>

text \<open>
  A double is modelled by the real number it stands for. \<open>toDouble\<close> rounds a real to the
  nearest double, a tie going to the even significand. The binary exponent is found by
  search; it stops at 1023 and at -1022, below which the doubles are subnormal and
  equally spaced. Numbers of magnitude \<open>2 ^ 1024\<close> and more, where the program's
  arithmetic gives Infinity, are outside the model.
\<close>

definition roundTiesToEven :: "real \<Rightarrow> int" where
  "roundTiesToEven y =
     (let f = \<lfloor>y\<rfloor>; d = y - of_int f
      in if d < 1 / 2 then f else if 1 / 2 < d then f + 1 else if even f then f else f + 1)"

fun expUp :: "nat \<Rightarrow> real \<Rightarrow> int \<Rightarrow> int" where
  "expUp n a e =
     (if n = 0 then e else if 2 powi (e + 1) \<le> a then expUp (n - 1) a (e + 1) else e)"

fun expDown :: "nat \<Rightarrow> real \<Rightarrow> int \<Rightarrow> int" where
  "expDown n a e =
     (if n = 0 then e else if a < 2 powi e then expDown (n - 1) a (e - 1) else e)"

declare expUp.simps [simp del]

declare expDown.simps [simp del]

definition exponent :: "real \<Rightarrow> int" where
  "exponent x = (if 1 \<le> \<bar>x\<bar> then expUp 1023 \<bar>x\<bar> 0 else expDown 1022 \<bar>x\<bar> 0)"

definition toDouble :: "real \<Rightarrow> real" where
  "toDouble x =
     (if x = 0 then 0
      else let q = 2 powi (exponent x - 52) in of_int (roundTiesToEven (x / q)) * q)"

text \<open>The language's multiplication, addition and division of two doubles.\<close>

definition fmul :: "real \<Rightarrow> real \<Rightarrow> real" where
  "fmul a b = toDouble (a * b)"

definition fadd :: "real \<Rightarrow> real \<Rightarrow> real" where
  "fadd a b = toDouble (a + b)"

definition fdiv :: "real \<Rightarrow> real \<Rightarrow> real" where
  "fdiv a b = toDouble (a / b)"

text \<open>
  \<open>calculateFinalCredits\<close> as the program computes it: the literals 0.5, 0.3 and 0.1 are
  doubles, and every product, sum and quotient is rounded to a double.
\<close>

definition calculateFinalCredits_double ::
  "real \<Rightarrow> real \<Rightarrow> real \<Rightarrow> real \<Rightarrow> real \<times> CreditBreakdown" where
  "calculateFinalCredits_double cs ds rs bf =
     (let conditionCredits' = fmul cs (toDouble 0.5);
          demandCredits' = fmul ds (toDouble 0.3);
          rarityCredits' = fmul rs (toDouble 0.1);
          bonusCredits' = bf;
          finalCredits' =
            fadd (fadd (fadd conditionCredits' demandCredits') rarityCredits') bonusCredits'
      in (fdiv (Math_round (fmul finalCredits' 100)) 100,
          \<lparr> conditionCredits = fdiv (Math_round (fmul conditionCredits' 100)) 100,
            demandCredits = fdiv (Math_round (fmul demandCredits' 100)) 100,
            rarityCredits = fdiv (Math_round (fmul rarityCredits' 100)) 100,
            bonusCredits = fdiv (Math_round (fmul bonusCredits' 100)) 100 \<rparr>))"

text \<open>
  The bound on the rounding error of one operation on numbers up to 1024, the distance
  from a rounding tie that the accumulated error cannot bridge, and the rounding of a
  number to two decimals in exact arithmetic, a tie going up.
\<close>

definition eps :: real where
  "eps = 1 / 2 ^ 43"

definition awayFromTie :: "real \<Rightarrow> bool" where
  "awayFromTie y = (1 / 10 ^ 9 \<le> \<bar>frac y - 1 / 2\<bar>)"

definition decimal2 :: "real \<Rightarrow> real" where
  "decimal2 x = Math_round (x * 100) / 100"

section \<open>The demand score on UTF-16 code units\<close>

text \<open>
  A string of the language is a list of 16-bit code units, here natural numbers.
  \<open>codeUnits\<close> gives the code units of an ASCII literal.
\<close>

type_synonym codeUnit = nat

definition codeUnits :: "string \<Rightarrow> codeUnit list" where
  "codeUnits s = map of_char s"

text \<open>
  \<open>calculateDemandScore\<close> on code units. The argument \<open>toLowerCase16\<close> is the language's
  \<open>toLowerCase\<close>, whose table of case mappings is not part of the program.
\<close>

definition calculateDemandScore_utf16 ::
  "(codeUnit list \<Rightarrow> codeUnit list) \<Rightarrow> codeUnit list option \<Rightarrow> codeUnit list option \<Rightarrow> real" where
  "calculateDemandScore_utf16 toLowerCase16 title author =
     (case title of
        None \<Rightarrow> 1
      | Some t \<Rightarrow>
          if t = [] then 1
          else
            let title' = toLowerCase16 t in
            if list_ex (\<lambda>book. String_includes title' (codeUnits book)) popularBooks then 3
            else if list_ex (\<lambda>genre. String_includes title' (codeUnits genre)) trendingGenres then 2
            else 1)"

text \<open>
  A lowering for the examples: it acts as the language does on the ASCII letters and on
  the Kelvin sign U+212A, and leaves every other code unit as it is.
\<close>

definition lowerUnit :: "codeUnit \<Rightarrow> codeUnit" where
  "lowerUnit u = (if 0x41 \<le> u \<and> u \<le> 0x5A then u + 0x20 else if u = 0x212A then 0x6B else u)"

definition lowerUnits :: "codeUnit list \<Rightarrow> codeUnit list" where
  "lowerUnits s = map lowerUnit s"


section \<open>The schema checks around the flow\<close>

text \<open>
  The numeric bounds of \<open>AssessBookConditionOutputSchema\<close>. The boolean, enumeration and
  text fields of the schema are the types of the record.
\<close>

definition schemaAccepts :: "AssessBookConditionOutput \<Rightarrow> bool" where
  "schemaAccepts v =
     (0 \<le> coverCondition v \<and> coverCondition v \<le> 10
      \<and> 0 \<le> spineCondition v \<and> spineCondition v \<le> 10
      \<and> 0 \<le> pagesCondition v \<and> pagesCondition v \<le> 10
      \<and> 0 \<le> bindingIntegrity v \<and> bindingIntegrity v \<le> 10
      \<and> 0 \<le> cleanliness v \<and> cleanliness v \<le> 10
      \<and> 0 \<le> conditionScore v \<and> conditionScore v \<le> 5
      \<and> 0 \<le> demandScore v \<and> demandScore v \<le> 3
      \<and> 0 \<le> rarityScore v \<and> rarityScore v \<le> 1
      \<and> 0 \<le> bonusFactors v \<and> bonusFactors v \<le> 5
      \<and> 0 \<le> finalCredits v)"

text \<open>
  The schema is the output schema of the prompt and of the flow: an answer of the prompt
  outside the schema is refused before the function of the flow runs, and so is a result
  of the function outside the schema.
\<close>

datatype checked_error = PromptNoOutput | PromptSchemaViolation | FlowSchemaViolation

definition assessBookConditionFlow_checked ::
  "(real \<Rightarrow> string) \<Rightarrow> AssessBookConditionOutput option \<Rightarrow> AssessBookConditionInput
     \<Rightarrow> checked_error + AssessBookConditionOutput" where
  "assessBookConditionFlow_checked str response input =
     (case response of
        None \<Rightarrow> Inl PromptNoOutput
      | Some answer \<Rightarrow>
          if \<not> schemaAccepts answer then Inl PromptSchemaViolation
          else
            (case assessBookConditionFlow str (Some answer) input of
               Inl e \<Rightarrow> Inl PromptNoOutput
             | Inr result \<Rightarrow>
                 if schemaAccepts result then Inr result else Inl FlowSchemaViolation))"

section \<open>Auxiliary facts\<close>

subsection \<open>Built-in operations\<close>

lemma Math_round_round: "Math_round x = of_int (round x)"
  by (simp add: Math_round_def round_def)

lemma Math_round_mono: "x \<le> y \<Longrightarrow> Math_round x \<le> Math_round y"
  by (simp add: Math_round_round round_mono)

lemma String_includes_sublist: "String_includes s t = sublist t s"
  by (induction s t rule: String_includes.induct) (simp_all add: sublist_Cons_right)

subsection \<open>The calculators\<close>

lemma calculateConditionScore_range:
  "0 \<le> calculateConditionScore a \<and> calculateConditionScore a \<le> 5"
  by (simp add: calculateConditionScore_def Let_def)

lemma calculateConditionScore_clamp:
  "calculateConditionScore a =
     clamp (3 + coverScore a + spineScore a + pageScore a + annotationScore a + 1) 0 5"
  by (simp add: calculateConditionScore_def clamp_def completenessScore_def Let_def)

lemma calculateConditionScore_cong:
  assumes "coverCondition a = coverCondition b" and "spineCondition a = spineCondition b"
    and "pagesCondition a = pagesCondition b"
    and "annotationSeverity a = annotationSeverity b"
  shows "calculateConditionScore a = calculateConditionScore b"
proof -
  have "coverScore a = coverScore b"
    by (simp only: coverScore_def assms(1))
  moreover have "spineScore a = spineScore b"
    by (simp only: spineScore_def assms(2))
  moreover have "pageScore a = pageScore b"
    by (simp only: pageScore_def assms(3))
  moreover have "annotationScore a = annotationScore b"
    by (simp only: annotationScore_def assms(4))
  ultimately show ?thesis
    by (simp only: calculateConditionScore_def)
qed

lemma Ints_between_8_9:
  fixes x :: real
  assumes "x \<in> \<int>" "\<not> 9 \<le> x" "7 \<le> x"
  shows "x \<le> 8"
proof -
  from assms(1) obtain k :: int where k: "x = of_int k"
    by (auto elim: Ints_cases)
  with assms(2) have "k < 9" by simp
  then have "k \<le> 8" by simp
  with k show ?thesis by simp
qed

lemma coverScore_band:
  "coverCondition a \<in> \<int> \<Longrightarrow> coverScore a = bandContribution (coverCondition a)"
  by (auto simp: coverScore_def bandContribution_def dest: Ints_between_8_9)

lemma spineScore_band:
  "spineCondition a \<in> \<int> \<Longrightarrow> spineScore a = bandContribution (spineCondition a)"
  by (auto simp: spineScore_def bandContribution_def dest: Ints_between_8_9)

lemma annotationScore_penalty: "annotationScore a = annotationPenalty (annotationSeverity a)"
  by (cases "annotationSeverity a") (simp_all add: annotationScore_def annotationPenalty_def)

lemma score_contributions:
  "coverScore a \<in> {- 1, 0, 1} \<and> spineScore a \<in> {- 1, 0, 1} \<and> pageScore a \<in> {- 1, 1}
   \<and> annotationScore a \<in> {- 1, - 0.5, 0}"
  by (simp add: coverScore_def spineScore_def pageScore_def annotationScore_def)

lemma calculateConditionScore_halves: "calculateConditionScore a * 2 \<in> \<int>"
proof -
  have "(3 + coverScore a + spineScore a + pageScore a + annotationScore a + 1) * 2 \<in> \<int>"
    using score_contributions [of a] by auto
  then show ?thesis
    by (auto simp: calculateConditionScore_clamp clamp_def)
qed

lemma calculateBonusFactors_halves: "calculateBonusFactors b * 2 \<in> \<int>"
  by (simp add: calculateBonusFactors_def Let_def)

lemma calculateDemandScore_cases:
  "calculateDemandScore t a = 1 \<or> calculateDemandScore t a = 2 \<or> calculateDemandScore t a = 3"
  by (simp add: calculateDemandScore_def Let_def split: option.splits)

lemma calculateDemandScore_ge_1: "1 \<le> calculateDemandScore t a"
  using calculateDemandScore_cases [of t a] by auto

lemma calculateBonusFactors_range:
  "0 \<le> calculateBonusFactors b \<and> calculateBonusFactors b \<le> 5"
  by (simp add: calculateBonusFactors_def)

lemma conditionCredits_snd:
  "conditionCredits (snd (calculateFinalCredits cs ds rs bf)) = Math_round (cs * 0.5 * 100) / 100"
  by (simp add: calculateFinalCredits_def Let_def)

lemma finalCredits_lower:
  assumes "0 \<le> cs" "1 \<le> ds" "0 \<le> rs" "0 \<le> bf"
  shows "3 / 10 \<le> fst (calculateFinalCredits cs ds rs bf)"
proof -
  have "30 \<le> (cs * 0.5 + ds * 0.3 + rs * 0.1 + bf) * 100"
    using assms by simp
  then have "Math_round 30 \<le> Math_round ((cs * 0.5 + ds * 0.3 + rs * 0.1 + bf) * 100)"
    by (rule Math_round_mono)
  moreover have "Math_round 30 = 30"
    by (simp add: Math_round_round)
  ultimately show ?thesis
    by (simp add: calculateFinalCredits_def Let_def)
qed

subsection \<open>The two paths of the flow\<close>

lemma flow_reject:
  "rejected v \<Longrightarrow>
   assessBookConditionFlow str (Some v) c = Inr (v\<lparr>
              conditionScore := 0,
              demandScore := 0,
              rarityScore := 0,
              bonusFactors := 0,
              finalCredits := 0,
              creditBreakdown := \<lparr> conditionCredits = 0, demandCredits = 0,
                                   rarityCredits = 0, bonusCredits = 0 \<rparr>,
              justification := justification v
                @ '' - Book rejected due to severe damage or missing pages.'' \<rparr>)"
  by (simp add: assessBookConditionFlow_def rejected_def)

lemma flow_accept:
  assumes "\<not> rejected v"
  shows "\<exists>r. assessBookConditionFlow str (Some v) c = Inr r
     \<and> conditionScore r = calculateConditionScore (featuresOf v)
     \<and> demandScore r = calculateDemandScore (bookTitle c) (bookAuthor c)
     \<and> rarityScore r = calculateRarityScore (bookTitle c) (bookAuthor c)
     \<and> bonusFactors r = calculateBonusFactors (flagsOf c)
     \<and> finalCredits r =
         fst (calculateFinalCredits (conditionScore r) (demandScore r) (rarityScore r)
                (bonusFactors r))
     \<and> creditBreakdown r =
         snd (calculateFinalCredits (conditionScore r) (demandScore r) (rarityScore r)
                (bonusFactors r))
     \<and> justification r = justification v @ breakdownBlock str r"
  using assms
  by (simp add: assessBookConditionFlow_def rejected_def featuresOf_def flagsOf_def
      breakdownBlock_def Let_def split: prod.splits)

lemma Math_round_nonneg: "0 \<le> x \<Longrightarrow> 0 \<le> Math_round x"
  by (simp add: Math_round_def)

lemma finalCredits_nonneg:
  assumes "0 \<le> cs" "0 \<le> ds" "0 \<le> rs" "0 \<le> bf"
  shows "0 \<le> fst (calculateFinalCredits cs ds rs bf)"
proof -
  have "0 \<le> (cs * 0.5 + ds * 0.3 + rs * 0.1 + bf) * 100"
    using assms by simp
  then have "0 \<le> Math_round ((cs * 0.5 + ds * 0.3 + rs * 0.1 + bf) * 100)"
    by (rule Math_round_nonneg)
  then show ?thesis
    by (simp add: calculateFinalCredits_def Let_def)
qed

lemma flow_total: "\<exists>r. assessBookConditionFlow str (Some v) c = Inr r"
proof (cases "rejected v")
  case True
  then show ?thesis by (simp add: flow_reject)
next
  case False
  from flow_accept [OF False, of str c] show ?thesis by blast
qed

lemma flow_keeps_features:
  assumes "assessBookConditionFlow str (Some v) c = Inr r"
  shows "coverCondition r = coverCondition v \<and> spineCondition r = spineCondition v
     \<and> pagesCondition r = pagesCondition v \<and> bindingIntegrity r = bindingIntegrity v
     \<and> cleanliness r = cleanliness v"
  using assms
  by (auto simp: assessBookConditionFlow_def Let_def split: if_splits prod.splits)

lemma flow_result_in_schema:
  assumes v: "schemaAccepts v" and r: "assessBookConditionFlow str (Some v) c = Inr r"
  shows "schemaAccepts r"
proof -
  note k = flow_keeps_features [OF r]
  have feat: "0 \<le> coverCondition r \<and> coverCondition r \<le> 10
      \<and> 0 \<le> spineCondition r \<and> spineCondition r \<le> 10
      \<and> 0 \<le> pagesCondition r \<and> pagesCondition r \<le> 10
      \<and> 0 \<le> bindingIntegrity r \<and> bindingIntegrity r \<le> 10
      \<and> 0 \<le> cleanliness r \<and> cleanliness r \<le> 10"
    using v k by (simp add: schemaAccepts_def)
  have scores: "0 \<le> conditionScore r \<and> conditionScore r \<le> 5
      \<and> 0 \<le> demandScore r \<and> demandScore r \<le> 3
      \<and> 0 \<le> rarityScore r \<and> rarityScore r \<le> 1
      \<and> 0 \<le> bonusFactors r \<and> bonusFactors r \<le> 5
      \<and> 0 \<le> finalCredits r"
  proof (cases "rejected v")
    case True
    from r flow_reject [OF True, of str c] show ?thesis
      by auto
  next
    case False
    from flow_accept [OF False, of str c] r obtain
      cs: "conditionScore r = calculateConditionScore (featuresOf v)"
      and ds: "demandScore r = calculateDemandScore (bookTitle c) (bookAuthor c)"
      and rs: "rarityScore r = calculateRarityScore (bookTitle c) (bookAuthor c)"
      and bf: "bonusFactors r = calculateBonusFactors (flagsOf c)"
      and fc: "finalCredits r =
         fst (calculateFinalCredits (conditionScore r) (demandScore r) (rarityScore r)
                (bonusFactors r))"
      by auto
    have c0: "0 \<le> conditionScore r \<and> conditionScore r \<le> 5"
      using calculateConditionScore_range [of "featuresOf v"] by (simp only: cs)
    have d0: "0 \<le> demandScore r \<and> demandScore r \<le> 3"
      using calculateDemandScore_cases [of "bookTitle c" "bookAuthor c"] by (auto simp: ds)
    have r0: "0 \<le> rarityScore r \<and> rarityScore r \<le> 1"
      by (simp add: rs calculateRarityScore_def)
    have b0: "0 \<le> bonusFactors r \<and> bonusFactors r \<le> 5"
      using calculateBonusFactors_range [of "flagsOf c"] by (simp only: bf)
    have "0 \<le> finalCredits r"
      using finalCredits_nonneg [of "conditionScore r" "demandScore r" "rarityScore r"
          "bonusFactors r"] c0 d0 r0 b0
      by (simp only: fc)
    with c0 d0 r0 b0 show ?thesis
      by simp
  qed
  from feat scores show ?thesis
    by (simp add: schemaAccepts_def)
qed

lemma checked_flow_in_schema:
  assumes "schemaAccepts v"
  shows "\<exists>r. assessBookConditionFlow_checked str (Some v) c = Inr r
     \<and> assessBookConditionFlow str (Some v) c = Inr r"
proof -
  from flow_total [of str v c] obtain r where r: "assessBookConditionFlow str (Some v) c = Inr r"
    by blast
  from flow_result_in_schema [OF assms r] have "schemaAccepts r" .
  with assms r show ?thesis
    by (simp add: assessBookConditionFlow_checked_def)
qed

section \<open>Facts about the double-precision aggregator\<close>

lemma roundTiesToEven_err: "\<bar>of_int (roundTiesToEven y) - y\<bar> \<le> 1 / 2"
proof -
  have "of_int \<lfloor>y\<rfloor> \<le> y" and "y < of_int \<lfloor>y\<rfloor> + 1"
    by linarith+
  then show ?thesis
    by (auto simp: roundTiesToEven_def Let_def abs_le_iff)
qed

lemma expUp_lower: "2 powi e \<le> a \<Longrightarrow> 2 powi (expUp n a e) \<le> a"
proof (induction n a e rule: expUp.induct)
  case (1 n a e)
  then show ?case
    by (subst expUp.simps) auto
qed

lemma expDown_le: "expDown n a e \<le> e"
proof (induction n a e rule: expDown.induct)
  case (1 n a e)
  then show ?case
    by (subst expDown.simps) (auto intro: order_trans)
qed

lemma exponent_le_10:
  assumes "\<bar>x\<bar> \<le> 1024"
  shows "exponent x \<le> 10"
proof (cases "1 \<le> \<bar>x\<bar>")
  case True
  have "(2::real) powi 0 \<le> \<bar>x\<bar>"
    using True by simp
  then have lo: "2 powi (expUp 1023 \<bar>x\<bar> 0) \<le> \<bar>x\<bar>"
    by (rule expUp_lower)
  show ?thesis
  proof (rule ccontr)
    assume "\<not> exponent x \<le> 10"
    then have "11 \<le> expUp 1023 \<bar>x\<bar> 0"
      using True by (simp add: exponent_def)
    then have "(2::real) powi 11 \<le> 2 powi (expUp 1023 \<bar>x\<bar> 0)"
      by (intro power_int_increasing) simp_all
    with lo assms show False
      by simp
  qed
next
  case False
  then have "exponent x = expDown 1022 \<bar>x\<bar> 0"
    by (simp add: exponent_def)
  with expDown_le [of 1022 "\<bar>x\<bar>" 0] show ?thesis
    by simp
qed

lemma toDouble_err:
  assumes "\<bar>x\<bar> \<le> 1024"
  shows "\<bar>toDouble x - x\<bar> \<le> eps"
proof (cases "x = 0")
  case True
  then show ?thesis
    by (simp add: toDouble_def eps_def)
next
  case False
  define q :: real where "q = 2 powi (exponent x - 52)"
  define r where "r = roundTiesToEven (x / q)"
  have qpos: "0 < q"
    by (simp add: q_def)
  have "exponent x - 52 \<le> - 42"
    using exponent_le_10 [OF assms] by simp
  then have "q \<le> 2 powi (- 42)"
    unfolding q_def by (intro power_int_increasing) simp_all
  then have qle: "q \<le> 2 * eps"
    by (simp add: eps_def power_int_minus_divide)
  have "toDouble x - x = q * (of_int r - x / q)"
    using False qpos by (simp add: toDouble_def q_def r_def Let_def field_simps)
  then have "\<bar>toDouble x - x\<bar> = q * \<bar>of_int r - x / q\<bar>"
    using qpos by (simp add: abs_mult)
  also have "\<dots> \<le> q * (1 / 2)"
    using roundTiesToEven_err [of "x / q"] qpos
    by (intro mult_left_mono) (simp_all add: r_def)
  also have "\<dots> \<le> eps"
    using qle by simp
  finally show ?thesis .
qed

lemma eps_bounds: "0 < eps" "eps \<le> 1 / 10 ^ 12" "1501 * eps < 1 / 10 ^ 9"
  by (simp_all add: eps_def)

lemma literal_err:
  assumes "0 \<le> w" "w \<le> 1"
  shows "\<bar>toDouble w - w\<bar> \<le> eps"
  using assms by (intro toDouble_err) simp

lemma fmul_literal_err:
  assumes c: "\<bar>c - w\<bar> \<le> eps" and w: "0 \<le> w" "w \<le> 1"
    and s: "0 \<le> s" "s \<le> B" and B: "B \<le> 5"
  shows "\<bar>fmul s c - s * w\<bar> \<le> (B + 1) * eps"
proof -
  have e: "0 < eps" "eps \<le> 1"
    using eps_bounds by simp_all
  have "s * c - s * w = s * (c - w)"
    by (simp add: algebra_simps)
  then have "\<bar>s * c - s * w\<bar> = s * \<bar>c - w\<bar>"
    using s(1) by (simp add: abs_mult)
  also have "\<dots> \<le> B * eps"
    using c s e by (intro mult_mono) simp_all
  finally have d: "\<bar>s * c - s * w\<bar> \<le> B * eps" .
  have "s * w \<le> 5 * 1"
    using s w B by (intro mult_mono) simp_all
  moreover have "0 \<le> s * w"
    using s w by simp
  moreover have "B * eps \<le> 5 * 1"
    using s B e by (intro mult_mono) simp_all
  ultimately have "\<bar>s * c\<bar> \<le> 1024"
    using d by (simp add: abs_le_iff)
  then have "\<bar>toDouble (s * c) - s * c\<bar> \<le> eps"
    by (rule toDouble_err)
  with d show ?thesis
    by (simp add: fmul_def abs_le_iff algebra_simps)
qed

lemma fadd_err:
  assumes "\<bar>x - X\<bar> \<le> ex" and "\<bar>y - Y\<bar> \<le> ey" and "\<bar>X + Y\<bar> \<le> 100" and "ex + ey \<le> 1"
  shows "\<bar>fadd x y - (X + Y)\<bar> \<le> ex + ey + eps"
proof -
  have "\<bar>x + y\<bar> \<le> 1024"
    using assms by (simp add: abs_le_iff)
  then have "\<bar>toDouble (x + y) - (x + y)\<bar> \<le> eps"
    by (rule toDouble_err)
  with assms(1,2) show ?thesis
    by (simp add: fadd_def abs_le_iff)
qed

lemma fmul_100_err:
  assumes "\<bar>v - V\<bar> \<le> ev" and "\<bar>V\<bar> \<le> 9" and "ev \<le> 1 / 100"
  shows "\<bar>fmul v 100 - V * 100\<bar> \<le> 100 * ev + eps"
proof -
  have "\<bar>v * 100\<bar> \<le> 1024"
    using assms by (simp add: abs_le_iff)
  then have "\<bar>toDouble (v * 100) - v * 100\<bar> \<le> eps"
    by (rule toDouble_err)
  with assms(1) show ?thesis
    by (simp add: fmul_def abs_le_iff)
qed

lemma Math_round_stable:
  assumes "\<bar>y' - y\<bar> \<le> d" and "d < \<bar>frac y - 1 / 2\<bar>"
  shows "Math_round y' = Math_round y"
proof -
  define n where "n = \<lfloor>y\<rfloor>"
  define fr where "fr = frac y"
  have fr: "0 \<le> fr" "fr < 1"
    by (simp_all add: fr_def frac_lt_1)
  have y: "y = of_int n + fr"
    by (simp add: n_def fr_def frac_def)
  have lo: "y - d \<le> y'" and hi: "y' \<le> y + d"
    using assms(1) by (simp_all add: abs_le_iff)
  have d: "d < \<bar>fr - 1 / 2\<bar>"
    using assms(2) by (simp add: fr_def)
  have "\<lfloor>y' + 1 / 2\<rfloor> = \<lfloor>y + 1 / 2\<rfloor>"
  proof (cases "fr < 1 / 2")
    case True
    with d have d': "d < 1 / 2 - fr"
      by simp
    have "of_int n \<le> y + 1 / 2" and "y + 1 / 2 < of_int n + 1"
      using True fr y by linarith+
    then have a: "\<lfloor>y + 1 / 2\<rfloor> = n"
      by (rule floor_unique)
    have "of_int n \<le> y' + 1 / 2" and "y' + 1 / 2 < of_int n + 1"
      using d' fr y lo hi by linarith+
    then have "\<lfloor>y' + 1 / 2\<rfloor> = n"
      by (rule floor_unique)
    with a show ?thesis
      by simp
  next
    case False
    with d have d': "d < fr - 1 / 2"
      by simp
    have "of_int n + 1 \<le> y + 1 / 2" and "y + 1 / 2 < of_int n + 2"
      using False fr y by linarith+
    then have a: "\<lfloor>y + 1 / 2\<rfloor> = n + 1"
      by (intro floor_unique) simp_all
    have "of_int n + 1 \<le> y' + 1 / 2" and "y' + 1 / 2 < of_int n + 2"
      using d' fr y lo hi by linarith+
    then have "\<lfloor>y' + 1 / 2\<rfloor> = n + 1"
      by (intro floor_unique) simp_all
    with a show ?thesis
      by simp
  qed
  then show ?thesis
    by (simp add: Math_round_def)
qed

lemma rounded_double:
  assumes "\<bar>y' - X * 100\<bar> \<le> 1501 * eps" and "awayFromTie (X * 100)"
  shows "fdiv (Math_round y') 100 = toDouble (decimal2 X)"
proof -
  have "1501 * eps < \<bar>frac (X * 100) - 1 / 2\<bar>"
    using assms(2) eps_bounds(3) by (simp add: awayFromTie_def)
  with assms(1) have "Math_round y' = Math_round (X * 100)"
    by (rule Math_round_stable)
  then show ?thesis
    by (simp add: fdiv_def decimal2_def)
qed

lemma weighted_errors:
  assumes "0 \<le> cs" "cs \<le> 5" "0 \<le> ds" "ds \<le> 3" "0 \<le> rs" "rs \<le> 1" "0 \<le> bf" "bf \<le> 5"
  defines "cc \<equiv> fmul cs (toDouble 0.5)"
    and "dc \<equiv> fmul ds (toDouble 0.3)"
    and "rc \<equiv> fmul rs (toDouble 0.1)"
  shows "\<bar>fmul (fadd (fadd (fadd cc dc) rc) bf) 100
           - (cs * 0.5 + ds * 0.3 + rs * 0.1 + bf) * 100\<bar> \<le> 1501 * eps"
    and "\<bar>fmul cc 100 - cs * 0.5 * 100\<bar> \<le> 1501 * eps"
    and "\<bar>fmul dc 100 - ds * 0.3 * 100\<bar> \<le> 1501 * eps"
    and "\<bar>fmul rc 100 - rs * 0.1 * 100\<bar> \<le> 1501 * eps"
    and "\<bar>fmul bf 100 - bf * 100\<bar> \<le> 1501 * eps"
proof -
  note e = eps_bounds
  have ecc: "\<bar>cc - cs * 0.5\<bar> \<le> 6 * eps"
    using fmul_literal_err [OF literal_err [of "0.5"], of cs 5] assms(1,2)
    by (simp add: cc_def)
  have edc: "\<bar>dc - ds * 0.3\<bar> \<le> 4 * eps"
    using fmul_literal_err [OF literal_err [of "0.3"], of ds 3] assms(3,4)
    by (simp add: dc_def)
  have erc: "\<bar>rc - rs * 0.1\<bar> \<le> 2 * eps"
    using fmul_literal_err [OF literal_err [of "0.1"], of rs 1] assms(5,6)
    by (simp add: rc_def)
  have e1: "\<bar>fadd cc dc - (cs * 0.5 + ds * 0.3)\<bar> \<le> 6 * eps + 4 * eps + eps"
    using assms(1-4) e by (intro fadd_err [OF ecc edc]) (simp_all add: abs_le_iff)
  have e2: "\<bar>fadd (fadd cc dc) rc - (cs * 0.5 + ds * 0.3 + rs * 0.1)\<bar>
      \<le> (6 * eps + 4 * eps + eps) + 2 * eps + eps"
    using assms(1-6) e by (intro fadd_err [OF e1 erc]) (simp_all add: abs_le_iff)
  have ebf: "\<bar>bf - bf\<bar> \<le> 0"
    by simp
  have e3: "\<bar>fadd (fadd (fadd cc dc) rc) bf - (cs * 0.5 + ds * 0.3 + rs * 0.1 + bf)\<bar>
      \<le> ((6 * eps + 4 * eps + eps) + 2 * eps + eps) + 0 + eps"
    using assms e by (intro fadd_err [OF e2 ebf]) (simp_all add: abs_le_iff)
  have "\<bar>fmul (fadd (fadd (fadd cc dc) rc) bf) 100
           - (cs * 0.5 + ds * 0.3 + rs * 0.1 + bf) * 100\<bar>
      \<le> 100 * (((6 * eps + 4 * eps + eps) + 2 * eps + eps) + 0 + eps) + eps"
    using assms e by (intro fmul_100_err [OF e3]) (simp_all add: abs_le_iff)
  then show "\<bar>fmul (fadd (fadd (fadd cc dc) rc) bf) 100
           - (cs * 0.5 + ds * 0.3 + rs * 0.1 + bf) * 100\<bar> \<le> 1501 * eps"
    by simp
  have "\<bar>fmul cc 100 - cs * 0.5 * 100\<bar> \<le> 100 * (6 * eps) + eps"
    using assms e by (intro fmul_100_err [OF ecc]) (simp_all add: abs_le_iff)
  then show "\<bar>fmul cc 100 - cs * 0.5 * 100\<bar> \<le> 1501 * eps"
    using e by simp
  have "\<bar>fmul dc 100 - ds * 0.3 * 100\<bar> \<le> 100 * (4 * eps) + eps"
    using assms e by (intro fmul_100_err [OF edc]) (simp_all add: abs_le_iff)
  then show "\<bar>fmul dc 100 - ds * 0.3 * 100\<bar> \<le> 1501 * eps"
    using e by simp
  have "\<bar>fmul rc 100 - rs * 0.1 * 100\<bar> \<le> 100 * (2 * eps) + eps"
    using assms e by (intro fmul_100_err [OF erc]) (simp_all add: abs_le_iff)
  then show "\<bar>fmul rc 100 - rs * 0.1 * 100\<bar> \<le> 1501 * eps"
    using e by simp
  have "\<bar>fmul bf 100 - bf * 100\<bar> \<le> 100 * 0 + eps"
    using assms e by (intro fmul_100_err [OF ebf]) (simp_all add: abs_le_iff)
  then show "\<bar>fmul bf 100 - bf * 100\<bar> \<le> 1501 * eps"
    using e by simp
qed

lemma integer_awayFromTie: "y \<in> \<int> \<Longrightarrow> awayFromTie y"
  by (auto simp: awayFromTie_def elim!: Ints_cases)

lemma double_rounding_away:
  assumes "0 \<le> cs" "cs \<le> 5" "0 \<le> ds" "ds \<le> 3" "0 \<le> rs" "rs \<le> 1" "0 \<le> bf" "bf \<le> 5"
  shows "awayFromTie ((cs * 0.5 + ds * 0.3 + rs * 0.1 + bf) * 100) \<Longrightarrow>
           fst (calculateFinalCredits_double cs ds rs bf)
             = toDouble (decimal2 (cs * 0.5 + ds * 0.3 + rs * 0.1 + bf))"
    and "awayFromTie (cs * 0.5 * 100) \<Longrightarrow>
           conditionCredits (snd (calculateFinalCredits_double cs ds rs bf))
             = toDouble (decimal2 (cs * 0.5))"
    and "awayFromTie (ds * 0.3 * 100) \<Longrightarrow>
           demandCredits (snd (calculateFinalCredits_double cs ds rs bf))
             = toDouble (decimal2 (ds * 0.3))"
    and "awayFromTie (rs * 0.1 * 100) \<Longrightarrow>
           rarityCredits (snd (calculateFinalCredits_double cs ds rs bf))
             = toDouble (decimal2 (rs * 0.1))"
    and "awayFromTie (bf * 100) \<Longrightarrow>
           bonusCredits (snd (calculateFinalCredits_double cs ds rs bf))
             = toDouble (decimal2 bf)"
proof -
  note w = weighted_errors [OF assms]
  show "awayFromTie ((cs * 0.5 + ds * 0.3 + rs * 0.1 + bf) * 100) \<Longrightarrow>
           fst (calculateFinalCredits_double cs ds rs bf)
             = toDouble (decimal2 (cs * 0.5 + ds * 0.3 + rs * 0.1 + bf))"
    using rounded_double [OF w(1)] by (simp add: calculateFinalCredits_double_def Let_def)
  show "awayFromTie (cs * 0.5 * 100) \<Longrightarrow>
           conditionCredits (snd (calculateFinalCredits_double cs ds rs bf))
             = toDouble (decimal2 (cs * 0.5))"
    using rounded_double [OF w(2)] by (simp add: calculateFinalCredits_double_def Let_def)
  show "awayFromTie (ds * 0.3 * 100) \<Longrightarrow>
           demandCredits (snd (calculateFinalCredits_double cs ds rs bf))
             = toDouble (decimal2 (ds * 0.3))"
    using rounded_double [OF w(3)] by (simp add: calculateFinalCredits_double_def Let_def)
  show "awayFromTie (rs * 0.1 * 100) \<Longrightarrow>
           rarityCredits (snd (calculateFinalCredits_double cs ds rs bf))
             = toDouble (decimal2 (rs * 0.1))"
    using rounded_double [OF w(4)] by (simp add: calculateFinalCredits_double_def Let_def)
  show "awayFromTie (bf * 100) \<Longrightarrow>
           bonusCredits (snd (calculateFinalCredits_double cs ds rs bf))
             = toDouble (decimal2 bf)"
    using rounded_double [OF w(5)] by (simp add: calculateFinalCredits_double_def Let_def)
qed

text \<open>
  Where the scores are whole numbers or halves, as they are in the flow, every weighted
  value is a whole number of hundredths, and the doubles of the program are the doubles
  of the values computed in exact arithmetic.
\<close>

lemma calculateFinalCredits_double_exact:
  assumes "0 \<le> cs" "cs \<le> 5" "0 \<le> ds" "ds \<le> 3" "0 \<le> rs" "rs \<le> 1" "0 \<le> bf" "bf \<le> 5"
    and "cs * 2 \<in> \<int>" and "ds \<in> \<int>" and "rs \<in> \<int>" and "bf * 2 \<in> \<int>"
  shows "fst (calculateFinalCredits_double cs ds rs bf)
           = toDouble (fst (calculateFinalCredits cs ds rs bf))"
    and "conditionCredits (snd (calculateFinalCredits_double cs ds rs bf))
           = toDouble (conditionCredits (snd (calculateFinalCredits cs ds rs bf)))"
    and "demandCredits (snd (calculateFinalCredits_double cs ds rs bf))
           = toDouble (demandCredits (snd (calculateFinalCredits cs ds rs bf)))"
    and "rarityCredits (snd (calculateFinalCredits_double cs ds rs bf))
           = toDouble (rarityCredits (snd (calculateFinalCredits cs ds rs bf)))"
    and "bonusCredits (snd (calculateFinalCredits_double cs ds rs bf))
           = toDouble (bonusCredits (snd (calculateFinalCredits cs ds rs bf)))"
proof -
  from assms(9) obtain i :: int where i: "cs * 2 = of_int i" by (auto elim: Ints_cases)
  from assms(10) obtain j :: int where j: "ds = of_int j" by (auto elim: Ints_cases)
  from assms(11) obtain k :: int where k: "rs = of_int k" by (auto elim: Ints_cases)
  from assms(12) obtain l :: int where l: "bf * 2 = of_int l" by (auto elim: Ints_cases)
  have c: "cs * 0.5 * 100 = of_int (25 * i)"
    using i by simp
  have d: "ds * 0.3 * 100 = of_int (30 * j)"
    using j by simp
  have r: "rs * 0.1 * 100 = of_int (10 * k)"
    using k by simp
  have b: "bf * 100 = of_int (50 * l)"
    using l by simp
  have s: "(cs * 0.5 + ds * 0.3 + rs * 0.1 + bf) * 100 = of_int (25 * i + 30 * j + 10 * k + 50 * l)"
    using c d r b by (simp add: algebra_simps)
  have t: "awayFromTie ((cs * 0.5 + ds * 0.3 + rs * 0.1 + bf) * 100)"
    "awayFromTie (cs * 0.5 * 100)" "awayFromTie (ds * 0.3 * 100)"
    "awayFromTie (rs * 0.1 * 100)" "awayFromTie (bf * 100)"
    unfolding s c d r b by (intro integer_awayFromTie Ints_of_int)+
  note m = double_rounding_away [OF assms(1-8)]
  show "fst (calculateFinalCredits_double cs ds rs bf)
           = toDouble (fst (calculateFinalCredits cs ds rs bf))"
    using m t(1) by (simp add: calculateFinalCredits_def decimal2_def Let_def)
  show "conditionCredits (snd (calculateFinalCredits_double cs ds rs bf))
           = toDouble (conditionCredits (snd (calculateFinalCredits cs ds rs bf)))"
    using m t(2) by (simp add: calculateFinalCredits_def decimal2_def Let_def)
  show "demandCredits (snd (calculateFinalCredits_double cs ds rs bf))
           = toDouble (demandCredits (snd (calculateFinalCredits cs ds rs bf)))"
    using m t(3) by (simp add: calculateFinalCredits_def decimal2_def Let_def)
  show "rarityCredits (snd (calculateFinalCredits_double cs ds rs bf))
           = toDouble (rarityCredits (snd (calculateFinalCredits cs ds rs bf)))"
    using m t(4) by (simp add: calculateFinalCredits_def decimal2_def Let_def)
  show "bonusCredits (snd (calculateFinalCredits_double cs ds rs bf))
           = toDouble (bonusCredits (snd (calculateFinalCredits cs ds rs bf)))"
    using m t(5) by (simp add: calculateFinalCredits_def decimal2_def Let_def)
qed

lemma flow_credits_as_doubles:
  assumes nr: "\<not> rejected v" and r: "assessBookConditionFlow str (Some v) c = Inr r"
  shows "fst (calculateFinalCredits_double (conditionScore r) (demandScore r) (rarityScore r)
                (bonusFactors r)) = toDouble (finalCredits r)"
    and "conditionCredits (snd (calculateFinalCredits_double (conditionScore r) (demandScore r)
                (rarityScore r) (bonusFactors r)))
           = toDouble (conditionCredits (creditBreakdown r))"
    and "demandCredits (snd (calculateFinalCredits_double (conditionScore r) (demandScore r)
                (rarityScore r) (bonusFactors r)))
           = toDouble (demandCredits (creditBreakdown r))"
    and "rarityCredits (snd (calculateFinalCredits_double (conditionScore r) (demandScore r)
                (rarityScore r) (bonusFactors r)))
           = toDouble (rarityCredits (creditBreakdown r))"
    and "bonusCredits (snd (calculateFinalCredits_double (conditionScore r) (demandScore r)
                (rarityScore r) (bonusFactors r)))
           = toDouble (bonusCredits (creditBreakdown r))"
proof -
  from flow_accept [OF nr, of str c] r obtain
    cs: "conditionScore r = calculateConditionScore (featuresOf v)"
    and ds: "demandScore r = calculateDemandScore (bookTitle c) (bookAuthor c)"
    and rs: "rarityScore r = calculateRarityScore (bookTitle c) (bookAuthor c)"
    and bf: "bonusFactors r = calculateBonusFactors (flagsOf c)"
    and fc: "finalCredits r =
         fst (calculateFinalCredits (conditionScore r) (demandScore r) (rarityScore r)
                (bonusFactors r))"
    and cb: "creditBreakdown r =
         snd (calculateFinalCredits (conditionScore r) (demandScore r) (rarityScore r)
                (bonusFactors r))"
    by auto
  have c0: "0 \<le> conditionScore r" "conditionScore r \<le> 5" "conditionScore r * 2 \<in> \<int>"
    using calculateConditionScore_range [of "featuresOf v"]
      calculateConditionScore_halves [of "featuresOf v"]
    by (simp_all only: cs)
  have d0: "0 \<le> demandScore r" "demandScore r \<le> 3" "demandScore r \<in> \<int>"
    using calculateDemandScore_cases [of "bookTitle c" "bookAuthor c"] by (auto simp: ds)
  have r0: "0 \<le> rarityScore r" "rarityScore r \<le> 1" "rarityScore r \<in> \<int>"
    by (simp_all add: rs calculateRarityScore_def)
  have b0: "0 \<le> bonusFactors r" "bonusFactors r \<le> 5" "bonusFactors r * 2 \<in> \<int>"
    using calculateBonusFactors_range [of "flagsOf c"]
      calculateBonusFactors_halves [of "flagsOf c"]
    by (simp_all only: bf)
  note e = calculateFinalCredits_double_exact
    [OF c0(1,2) d0(1,2) r0(1,2) b0(1,2) c0(3) d0(3) r0(3) b0(3)]
  show "fst (calculateFinalCredits_double (conditionScore r) (demandScore r) (rarityScore r)
                (bonusFactors r)) = toDouble (finalCredits r)"
    using e(1) by (simp only: fc [symmetric])
  show "conditionCredits (snd (calculateFinalCredits_double (conditionScore r) (demandScore r)
                (rarityScore r) (bonusFactors r)))
           = toDouble (conditionCredits (creditBreakdown r))"
    using e(2) by (simp only: cb [symmetric])
  show "demandCredits (snd (calculateFinalCredits_double (conditionScore r) (demandScore r)
                (rarityScore r) (bonusFactors r)))
           = toDouble (demandCredits (creditBreakdown r))"
    using e(3) by (simp only: cb [symmetric])
  show "rarityCredits (snd (calculateFinalCredits_double (conditionScore r) (demandScore r)
                (rarityScore r) (bonusFactors r)))
           = toDouble (rarityCredits (creditBreakdown r))"
    using e(4) by (simp only: cb [symmetric])
  show "bonusCredits (snd (calculateFinalCredits_double (conditionScore r) (demandScore r)
                (rarityScore r) (bonusFactors r)))
           = toDouble (bonusCredits (creditBreakdown r))"
    using e(5) by (simp only: cb [symmetric])
qed
section \<open>Facts about the demand score on code units\<close>

text \<open>
  On a title whose lower-case form the language computes as \<open>toLowerCase\<close> does here, as it
  does on ASCII text, the demand score of the flow is the demand score on code units.
\<close>

lemma inj_codeUnits: "inj codeUnits"
  unfolding codeUnits_def by (intro inj_mapI inj_of_char)

lemma sublist_codeUnits: "sublist (codeUnits t) (codeUnits s) = sublist t s"
proof
  assume "sublist (codeUnits t) (codeUnits s)"
  then have "\<exists>t'. sublist t' s \<and> map of_char t = map (of_char :: char \<Rightarrow> nat) t'"
    unfolding codeUnits_def by (rule sublist_map_rightE)
  then obtain t' where t': "sublist t' s" "codeUnits t = map of_char t'"
    unfolding codeUnits_def by blast
  from t'(2) have "codeUnits t = codeUnits t'"
    by (simp add: codeUnits_def)
  with inj_codeUnits have "t = t'"
    by (simp add: inj_eq)
  with t'(1) show "sublist t s"
    by simp
next
  assume "sublist t s"
  then show "sublist (codeUnits t) (codeUnits s)"
    unfolding codeUnits_def by (rule map_mono_sublist)
qed

lemma calculateDemandScore_as_utf16:
  assumes "lower (codeUnits s) = codeUnits (toLowerCase s)"
  shows "calculateDemandScore (Some s) a = calculateDemandScore_utf16 lower (Some (codeUnits s)) a'"
  using assms
  by (simp add: calculateDemandScore_def calculateDemandScore_utf16_def Let_def list_ex_iff
      String_includes_sublist sublist_codeUnits codeUnits_def [of s])

lemma lowerUnit_of_char: "lowerUnit (of_char c) = of_char (lowerChar c)"
proof -
  have "(of_char c :: nat) < 256"
    by simp
  then have "(of_char c :: nat) \<noteq> 0x212A"
    by linarith
  then show ?thesis
    by (simp add: lowerUnit_def lowerChar_def Let_def)
qed

lemma lowerUnits_codeUnits: "lowerUnits (codeUnits s) = codeUnits (toLowerCase s)"
  by (simp add: lowerUnits_def codeUnits_def toLowerCase_def lowerUnit_of_char)

section \<open>The claims\<close>

text \<open>
  Claim C1. When \<open>shouldReject\<close> is true or \<open>isComplete\<close> is false, the flow returns an
  assessment whose four scores, final credits and four breakdown components are all 0
  and whose justification is the provider's text followed by the literal rejection
  suffix. The result is the same for every other input record and number conversion,
  so no contextual factor affects it.
\<close>

theorem rejection_short_circuit:
  assumes "shouldReject v \<or> \<not> isComplete v"
  shows "\<exists>r. assessBookConditionFlow str (Some v) c = Inr r
     \<and> conditionScore r = 0 \<and> demandScore r = 0 \<and> rarityScore r = 0
     \<and> bonusFactors r = 0 \<and> finalCredits r = 0
     \<and> conditionCredits (creditBreakdown r) = 0 \<and> demandCredits (creditBreakdown r) = 0
     \<and> rarityCredits (creditBreakdown r) = 0 \<and> bonusCredits (creditBreakdown r) = 0
     \<and> justification r =
         justification v @ '' - Book rejected due to severe damage or missing pages.''
     \<and> assessBookConditionFlow str' (Some v) c' = Inr r"
proof -
  have rj: "rejected v"
    using assms by (simp add: rejected_def)
  show ?thesis
    by (simp add: flow_reject [OF rj])
qed

theorem rejection_short_circuit_witness:
  "\<exists>r. assessBookConditionFlow numberToString
         (Some (exampleAssessment\<lparr>isComplete := False\<rparr>))
         (exampleInput\<lparr>isNewBook := True, bookTitle := Some ''1984''\<rparr>) = Inr r
     \<and> finalCredits r = 0 \<and> bonusFactors r = 0 \<and> demandScore r = 0
     \<and> justification r = ''Clean copy. - Book rejected due to severe damage or missing pages.''"
proof -
  have h: "shouldReject (exampleAssessment\<lparr>isComplete := False\<rparr>)
           \<or> \<not> isComplete (exampleAssessment\<lparr>isComplete := False\<rparr>)"
    by simp
  show ?thesis
    using rejection_short_circuit [OF h, of numberToString
        "exampleInput\<lparr>isNewBook := True, bookTitle := Some ''1984''\<rparr>"]
    by (auto simp: exampleAssessment_def)
qed

text \<open>
  Claim C2. For a non-rejected assessment with whole-number cover and spine scores, the
  condition score is \<open>clamp (3 + cover + spine + page + annotation + 1) 0 5\<close>, where
  cover and spine contribute +1 from 9 on, 0 in the band from 7 to 8 and -1 otherwise,
  pages contribute +1 from 8 on and -1 otherwise, and the annotation penalty is 0, -0.5
  or -1; the score lies between 0 and 5.
\<close>

theorem conditionScore_formula:
  assumes "\<not> shouldReject v" and "isComplete v"
    and "coverCondition v \<in> \<int>" and "spineCondition v \<in> \<int>"
  shows "\<exists>r. assessBookConditionFlow str (Some v) c = Inr r
     \<and> conditionScore r =
         clamp (3 + bandContribution (coverCondition v) + bandContribution (spineCondition v)
                  + pageContribution (pagesCondition v)
                  + annotationPenalty (annotationSeverity v) + 1) 0 5
     \<and> 0 \<le> conditionScore r \<and> conditionScore r \<le> 5"
proof -
  have nr: "\<not> rejected v"
    using assms(1,2) by (simp add: rejected_def)
  from flow_accept [OF nr, of str c] obtain r where
    r: "assessBookConditionFlow str (Some v) c = Inr r"
    and cs: "conditionScore r = calculateConditionScore (featuresOf v)"
    by blast
  have "coverScore (featuresOf v) = bandContribution (coverCondition v)"
    using coverScore_band [of "featuresOf v"] assms(3) by (simp add: featuresOf_def)
  moreover have "spineScore (featuresOf v) = bandContribution (spineCondition v)"
    using spineScore_band [of "featuresOf v"] assms(4) by (simp add: featuresOf_def)
  moreover have "pageScore (featuresOf v) = pageContribution (pagesCondition v)"
    by (simp add: pageScore_def pageContribution_def featuresOf_def)
  moreover have "annotationScore (featuresOf v) = annotationPenalty (annotationSeverity v)"
    by (simp add: annotationScore_penalty featuresOf_def)
  ultimately have "conditionScore r =
         clamp (3 + bandContribution (coverCondition v) + bandContribution (spineCondition v)
                  + pageContribution (pagesCondition v)
                  + annotationPenalty (annotationSeverity v) + 1) 0 5"
    by (simp add: cs calculateConditionScore_clamp)
  with r cs calculateConditionScore_range [of "featuresOf v"] show ?thesis
    by simp
qed

theorem conditionScore_formula_witness:
  "\<exists>r. assessBookConditionFlow numberToString
         (Some (exampleAssessment\<lparr>coverCondition := 8, spineCondition := 6,
                                   annotationSeverity := minor\<rparr>)) exampleInput = Inr r
     \<and> conditionScore r = 3.5"
proof -
  let ?v = "exampleAssessment\<lparr>coverCondition := 8, spineCondition := 6,
                               annotationSeverity := minor\<rparr>"
  have h1: "\<not> shouldReject ?v" and h2: "isComplete ?v"
    and h3: "coverCondition ?v \<in> \<int>" and h4: "spineCondition ?v \<in> \<int>"
    by (simp_all add: exampleAssessment_def)
  show ?thesis
    using conditionScore_formula [OF h1 h2 h3 h4, of numberToString exampleInput]
    by (auto simp: exampleAssessment_def clamp_def bandContribution_def pageContribution_def
        annotationPenalty_def)
qed




text \<open>
  Claim C4. With cover 9, spine 9, pages 8, no annotations, a complete book that is not
  rejected, no title and all four flags false, the flow returns condition score 5,
  demand score 1, rarity score 0, bonus 0, the breakdown 2.5, 0.3, 0, 0 and final
  credits 2.8, whatever the remaining fields are.
\<close>

theorem end_to_end_scenario:
  "\<exists>r. assessBookConditionFlow str
         (Some (v\<lparr>coverCondition := 9, spineCondition := 9, pagesCondition := 8,
                  annotationSeverity := none, isComplete := True, shouldReject := False\<rparr>))
         (c\<lparr>bookTitle := None, isFirstTimeDonor := False, isThemeEvent := False,
            isNewBook := False, hasCraftMatch := False\<rparr>) = Inr r
     \<and> conditionScore r = 5 \<and> demandScore r = 1 \<and> rarityScore r = 0 \<and> bonusFactors r = 0
     \<and> conditionCredits (creditBreakdown r) = 2.5 \<and> demandCredits (creditBreakdown r) = 0.3
     \<and> rarityCredits (creditBreakdown r) = 0 \<and> bonusCredits (creditBreakdown r) = 0
     \<and> finalCredits r = 2.8"
  by (simp add: assessBookConditionFlow_def calculateConditionScore_def coverScore_def
      spineScore_def pageScore_def annotationScore_def completenessScore_def
      calculateDemandScore_def calculateRarityScore_def calculateBonusFactors_def
      calculateFinalCredits_def Math_round_def Let_def)

theorem end_to_end_scenario_witness:
  "\<exists>r. assessBookConditionFlow numberToString (Some exampleAssessment) exampleInput = Inr r
     \<and> conditionScore r = 5 \<and> finalCredits r = 2.8
     \<and> creditBreakdown r = \<lparr> conditionCredits = 2.5, demandCredits = 0.3,
                              rarityCredits = 0, bonusCredits = 0 \<rparr>"
  using end_to_end_scenario [of numberToString exampleAssessment exampleInput]
  by (auto simp: exampleAssessment_def exampleInput_def)



text \<open>
  Claim C6. The bonus is the minimum of 5 and the sum of 1 for a first-time donor, 0.5
  for a theme event, 2 for a new book and 1 for a craft match; with all four flags it is
  4.5, and it always lies between 0 and 5.
\<close>

theorem calculateBonusFactors_contract:
  "calculateBonusFactors b =
     min 5 ((if isFirstTimeDonor b then 1 else 0) + (if isThemeEvent b then 0.5 else 0)
            + (if isNewBook b then 2 else 0) + (if hasCraftMatch b then 1 else 0))
   \<and> calculateBonusFactors \<lparr> isFirstTimeDonor = True, isThemeEvent = True,
                              isNewBook = True, hasCraftMatch = True \<rparr> = 4.5
   \<and> 0 \<le> calculateBonusFactors b \<and> calculateBonusFactors b \<le> 5"
  by (simp add: calculateBonusFactors_def)

text \<open>
  Claim C7, amended. For every answer of the prompt within the schema the flow returns
  an assessment, the one its function computes. The flow fails exactly when the prompt
  gives no output or its answer is outside the schema, so a feature score outside the
  range from 0 to 10 does not reach the calculators through the flow. The condition
  calculator itself checks nothing and meets such scores literally: a score above 10
  contributes +1 and a negative score contributes -1, for cover, spine and pages alike.
\<close>

theorem checked_flow_total_literal_thresholds:
  "(schemaAccepts v \<longrightarrow>
      (\<exists>r. assessBookConditionFlow_checked str (Some v) c = Inr r
         \<and> assessBookConditionFlow str (Some v) c = Inr r))
   \<and> ((\<exists>e. assessBookConditionFlow_checked str response c = Inl e)
        \<longleftrightarrow> (response = None \<or> (\<exists>w. response = Some w \<and> \<not> schemaAccepts w)))
   \<and> calculateConditionScore a =
       clamp (3 + coverScore a + spineScore a + pageScore a + annotationScore a + 1) 0 5
   \<and> (10 < coverCondition a \<longrightarrow> coverScore a = 1)
   \<and> (10 < spineCondition a \<longrightarrow> spineScore a = 1)
   \<and> (10 < pagesCondition a \<longrightarrow> pageScore a = 1)
   \<and> (coverCondition a < 0 \<longrightarrow> coverScore a = - 1)
   \<and> (spineCondition a < 0 \<longrightarrow> spineScore a = - 1)
   \<and> (pagesCondition a < 0 \<longrightarrow> pageScore a = - 1)"
proof -
  have tot: "schemaAccepts v \<longrightarrow>
      (\<exists>r. assessBookConditionFlow_checked str (Some v) c = Inr r
         \<and> assessBookConditionFlow str (Some v) c = Inr r)"
    using checked_flow_in_schema [of v str c] by blast
  have err: "(\<exists>e. assessBookConditionFlow_checked str response c = Inl e)
        \<longleftrightarrow> (response = None \<or> (\<exists>w. response = Some w \<and> \<not> schemaAccepts w))"
  proof (cases response)
    case None
    then show ?thesis by (simp add: assessBookConditionFlow_checked_def)
  next
    case (Some w)
    show ?thesis
    proof (cases "schemaAccepts w")
      case True
      from checked_flow_in_schema [OF True, of str c] Some True show ?thesis
        by auto
    next
      case False
      with Some show ?thesis
        by (simp add: assessBookConditionFlow_checked_def)
    qed
  qed
  have thr: "(10 < coverCondition a \<longrightarrow> coverScore a = 1)
   \<and> (10 < spineCondition a \<longrightarrow> spineScore a = 1)
   \<and> (10 < pagesCondition a \<longrightarrow> pageScore a = 1)
   \<and> (coverCondition a < 0 \<longrightarrow> coverScore a = - 1)
   \<and> (spineCondition a < 0 \<longrightarrow> spineScore a = - 1)
   \<and> (pagesCondition a < 0 \<longrightarrow> pageScore a = - 1)"
    by (simp add: coverScore_def spineScore_def pageScore_def)
  from tot err thr calculateConditionScore_clamp [of a] show ?thesis
    by blast
qed

theorem checked_flow_total_literal_thresholds_witness:
  "schemaAccepts exampleAssessment
   \<and> (\<exists>r. assessBookConditionFlow_checked numberToString (Some exampleAssessment) exampleInput
             = Inr r
          \<and> assessBookConditionFlow numberToString (Some exampleAssessment) exampleInput = Inr r)
   \<and> 10 < coverCondition (featuresOf (exampleAssessment\<lparr>coverCondition := 15,
             spineCondition := - 3, pagesCondition := 12\<rparr>))
   \<and> coverScore (featuresOf (exampleAssessment\<lparr>coverCondition := 15,
             spineCondition := - 3, pagesCondition := 12\<rparr>)) = 1
   \<and> spineScore (featuresOf (exampleAssessment\<lparr>coverCondition := 15,
             spineCondition := - 3, pagesCondition := 12\<rparr>)) = - 1
   \<and> pageScore (featuresOf (exampleAssessment\<lparr>coverCondition := 15,
             spineCondition := - 3, pagesCondition := 12\<rparr>)) = 1
   \<and> coverScore (featuresOf (exampleAssessment\<lparr>coverCondition := - 1,
             spineCondition := 11, pagesCondition := - 5\<rparr>)) = - 1
   \<and> spineScore (featuresOf (exampleAssessment\<lparr>coverCondition := - 1,
             spineCondition := 11, pagesCondition := - 5\<rparr>)) = 1
   \<and> pageScore (featuresOf (exampleAssessment\<lparr>coverCondition := - 1,
             spineCondition := 11, pagesCondition := - 5\<rparr>)) = - 1"
proof -
  let ?a1 = "featuresOf (exampleAssessment\<lparr>coverCondition := 15,
             spineCondition := - 3, pagesCondition := 12\<rparr>)"
  let ?a2 = "featuresOf (exampleAssessment\<lparr>coverCondition := - 1,
             spineCondition := 11, pagesCondition := - 5\<rparr>)"
  have s: "schemaAccepts exampleAssessment"
    by (simp add: schemaAccepts_def exampleAssessment_def)
  have h1: "10 < coverCondition ?a1" "spineCondition ?a1 < 0" "10 < pagesCondition ?a1"
    and h2: "coverCondition ?a2 < 0" "10 < spineCondition ?a2" "pagesCondition ?a2 < 0"
    by (simp_all add: featuresOf_def)
  note t1 = checked_flow_total_literal_thresholds
    [of exampleAssessment numberToString exampleInput None ?a1]
  note t2 = checked_flow_total_literal_thresholds
    [of exampleAssessment numberToString exampleInput None ?a2]
  from t1 s have f: "\<exists>r. assessBookConditionFlow_checked numberToString (Some exampleAssessment)
             exampleInput = Inr r
          \<and> assessBookConditionFlow numberToString (Some exampleAssessment) exampleInput = Inr r"
    by blast
  from t1 h1 have a1: "coverScore ?a1 = 1" "spineScore ?a1 = - 1" "pageScore ?a1 = 1"
    by blast+
  from t2 h2 have a2: "coverScore ?a2 = - 1" "spineScore ?a2 = 1" "pageScore ?a2 = - 1"
    by blast+
  from s f h1(1) a1 a2 show ?thesis
    by blast
qed

text \<open>An answer with cover score 15 is refused.\<close>

theorem out_of_range_score_fails:
  "assessBookConditionFlow_checked numberToString
     (Some (exampleAssessment\<lparr>coverCondition := 15\<rparr>)) exampleInput
   = Inl PromptSchemaViolation"
  by (simp add: assessBookConditionFlow_checked_def schemaAccepts_def exampleAssessment_def)

text \<open>
  Claim C8. Two non-rejected assessments that agree on cover, spine and pages scores and
  on the annotation severity get the same condition score and the same condition
  credits, whatever their binding integrity, cleanliness and annotation flag are (and
  whatever the input records are).
\<close>

theorem conditionScore_independent:
  assumes "\<not> shouldReject v1" and "isComplete v1" and "\<not> shouldReject v2" and "isComplete v2"
    and "coverCondition v1 = coverCondition v2" and "spineCondition v1 = spineCondition v2"
    and "pagesCondition v1 = pagesCondition v2"
    and "annotationSeverity v1 = annotationSeverity v2"
  shows "\<exists>r1 r2. assessBookConditionFlow str1 (Some v1) c1 = Inr r1
     \<and> assessBookConditionFlow str2 (Some v2) c2 = Inr r2
     \<and> conditionScore r1 = conditionScore r2
     \<and> conditionCredits (creditBreakdown r1) = conditionCredits (creditBreakdown r2)"
proof -
  have n1: "\<not> rejected v1" and n2: "\<not> rejected v2"
    using assms(1-4) by (simp_all add: rejected_def)
  from flow_accept [OF n1, of str1 c1] obtain r1 where
    r1: "assessBookConditionFlow str1 (Some v1) c1 = Inr r1"
    and s1: "conditionScore r1 = calculateConditionScore (featuresOf v1)"
    and f1: "creditBreakdown r1 =
         snd (calculateFinalCredits (conditionScore r1) (demandScore r1) (rarityScore r1)
                (bonusFactors r1))"
    by blast
  from flow_accept [OF n2, of str2 c2] obtain r2 where
    r2: "assessBookConditionFlow str2 (Some v2) c2 = Inr r2"
    and s2: "conditionScore r2 = calculateConditionScore (featuresOf v2)"
    and f2: "creditBreakdown r2 =
         snd (calculateFinalCredits (conditionScore r2) (demandScore r2) (rarityScore r2)
                (bonusFactors r2))"
    by blast
  have "calculateConditionScore (featuresOf v1) = calculateConditionScore (featuresOf v2)"
  proof (rule calculateConditionScore_cong)
    show "coverCondition (featuresOf v1) = coverCondition (featuresOf v2)"
      by (simp add: featuresOf_def assms(5))
    show "spineCondition (featuresOf v1) = spineCondition (featuresOf v2)"
      by (simp add: featuresOf_def assms(6))
    show "pagesCondition (featuresOf v1) = pagesCondition (featuresOf v2)"
      by (simp add: featuresOf_def assms(7))
    show "annotationSeverity (featuresOf v1) = annotationSeverity (featuresOf v2)"
      by (simp add: featuresOf_def assms(8))
  qed
  with s1 s2 have eq: "conditionScore r1 = conditionScore r2"
    by simp
  have "conditionCredits (creditBreakdown r1) = conditionCredits (creditBreakdown r2)"
    by (simp only: f1 f2 conditionCredits_snd eq)
  with r1 r2 eq show ?thesis
    by blast
qed

theorem conditionScore_independent_witness:
  "bindingIntegrity wornAnnotated \<noteq> bindingIntegrity exampleAssessment
   \<and> cleanliness wornAnnotated \<noteq> cleanliness exampleAssessment
   \<and> hasAnnotations wornAnnotated \<noteq> hasAnnotations exampleAssessment
   \<and> (\<exists>r1 r2. assessBookConditionFlow numberToString (Some wornAnnotated) exampleInput = Inr r1
     \<and> assessBookConditionFlow numberToString (Some exampleAssessment)
           (exampleInput\<lparr>isNewBook := True\<rparr>) = Inr r2
     \<and> conditionScore r1 = conditionScore r2
     \<and> conditionCredits (creditBreakdown r1) = conditionCredits (creditBreakdown r2))"
proof -
  have d: "bindingIntegrity wornAnnotated \<noteq> bindingIntegrity exampleAssessment
   \<and> cleanliness wornAnnotated \<noteq> cleanliness exampleAssessment
   \<and> hasAnnotations wornAnnotated \<noteq> hasAnnotations exampleAssessment"
    by (simp add: wornAnnotated_def exampleAssessment_def)
  have h: "\<not> shouldReject wornAnnotated" "isComplete wornAnnotated"
    "\<not> shouldReject exampleAssessment" "isComplete exampleAssessment"
    "coverCondition wornAnnotated = coverCondition exampleAssessment"
    "spineCondition wornAnnotated = spineCondition exampleAssessment"
    "pagesCondition wornAnnotated = pagesCondition exampleAssessment"
    "annotationSeverity wornAnnotated = annotationSeverity exampleAssessment"
    by (simp_all add: wornAnnotated_def exampleAssessment_def)
  from d conditionScore_independent [OF h, of numberToString exampleInput numberToString
      "exampleInput\<lparr>isNewBook := True\<rparr>"]
  show ?thesis
    by blast
qed

text \<open>
  Claim C9. On both paths the returned justification starts with the provider's
  justification, unchanged: it is that text followed by the rejection suffix on the
  rejection path and by the breakdown block of the returned scores and credits on the
  scoring path.
\<close>

theorem justification_appended:
  "\<exists>r. assessBookConditionFlow str (Some v) c = Inr r
     \<and> prefix (justification v) (justification r)
     \<and> justification r =
         justification v
         @ (if shouldReject v \<or> \<not> isComplete v
            then '' - Book rejected due to severe damage or missing pages.''
            else breakdownBlock str r)"
proof (cases "rejected v")
  case True
  then have "shouldReject v \<or> \<not> isComplete v"
    by (simp add: rejected_def)
  then show ?thesis
    by (simp add: flow_reject [OF True])
next
  case False
  then have nr: "\<not> (shouldReject v \<or> \<not> isComplete v)"
    by (simp add: rejected_def)
  from flow_accept [OF False, of str c] obtain r where
    r: "assessBookConditionFlow str (Some v) c = Inr r"
    and j: "justification r = justification v @ breakdownBlock str r"
    by blast
  have "prefix (justification v) (justification r)"
    by (simp only: j prefixI)
  with r j nr show ?thesis
    by auto
qed

theorem justification_appended_witness:
  "\<exists>r. assessBookConditionFlow numberToString (Some exampleAssessment) exampleInput = Inr r
     \<and> prefix ''Clean copy.'' (justification r)
     \<and> justification r =
         ''Clean copy.'' @ newline @ newline @ ''CREDIT BREAKDOWN:'' @ newline
         @ bullet @ '' Condition Score: 5/5 (2.5 credits)'' @ newline
         @ bullet @ '' Demand Score: 1/3 (0.3 credits)'' @ newline
         @ bullet @ '' Rarity Score: 0/1 (0 credits)'' @ newline
         @ bullet @ '' Bonus Factors: 0 (0 credits)'' @ newline
         @ bullet @ '' TOTAL: 2.8 credits''"
proof -
  let ?T = "''Clean copy.'' @ newline @ newline @ ''CREDIT BREAKDOWN:'' @ newline
         @ bullet @ '' Condition Score: 5/5 (2.5 credits)'' @ newline
         @ bullet @ '' Demand Score: 1/3 (0.3 credits)'' @ newline
         @ bullet @ '' Rarity Score: 0/1 (0 credits)'' @ newline
         @ bullet @ '' Bonus Factors: 0 (0 credits)'' @ newline
         @ bullet @ '' TOTAL: 2.8 credits''"
  let ?R = "exampleAssessment\<lparr>conditionScore := 5, demandScore := 1, rarityScore := 0,
             bonusFactors := 0, finalCredits := 2.8,
             creditBreakdown := \<lparr> conditionCredits = 2.5, demandCredits = 0.3,
                                  rarityCredits = 0, bonusCredits = 0 \<rparr>,
             justification := ?T\<rparr>"
  from justification_appended [of numberToString exampleAssessment exampleInput] obtain r where
    r: "assessBookConditionFlow numberToString (Some exampleAssessment) exampleInput = Inr r"
    and p: "prefix (justification exampleAssessment) (justification r)"
    by blast
  have j: "justification exampleAssessment = ''Clean copy.''"
    by (simp add: exampleAssessment_def)
  have e: "assessBookConditionFlow numberToString (Some exampleAssessment) exampleInput = Inr ?R"
    by code_simp
  have "Inr r = (Inr ?R :: flow_error + AssessBookConditionOutput)"
    by (simp only: r [symmetric] e)
  then have "r = ?R"
    by (simp only: sum.inject)
  then have t: "justification r = ?T"
    by simp
  show ?thesis
  proof (rule exI [of _ r], intro conjI)
    show "assessBookConditionFlow numberToString (Some exampleAssessment) exampleInput = Inr r"
      by (rule r)
    show "prefix ''Clean copy.'' (justification r)"
      using p by (simp only: j)
    show "justification r = ?T"
      by (rule t)
  qed
qed

text \<open>
  Claim C10. The demand calculator never returns less than 1. On the scoring path the
  demand score is at least 1 and the final credits are at least 0.3, so the final credits
  are 0 exactly when the book is rejected.
\<close>

theorem finalCredits_zero_iff_rejected:
  "1 \<le> calculateDemandScore title author
   \<and> (\<exists>r. assessBookConditionFlow str (Some v) c = Inr r
        \<and> (\<not> shouldReject v \<and> isComplete v \<longrightarrow> 1 \<le> demandScore r \<and> 0.3 \<le> finalCredits r)
        \<and> (finalCredits r = 0 \<longleftrightarrow> shouldReject v \<or> \<not> isComplete v))"
proof (cases "rejected v")
  case True
  then have "shouldReject v \<or> \<not> isComplete v"
    by (simp add: rejected_def)
  then show ?thesis
    by (simp add: flow_reject [OF True] calculateDemandScore_ge_1)
next
  case False
  then have nr: "\<not> shouldReject v \<and> isComplete v"
    by (simp add: rejected_def)
  from flow_accept [OF False, of str c] obtain r where
    r: "assessBookConditionFlow str (Some v) c = Inr r"
    and cs: "conditionScore r = calculateConditionScore (featuresOf v)"
    and ds: "demandScore r = calculateDemandScore (bookTitle c) (bookAuthor c)"
    and rs: "rarityScore r = calculateRarityScore (bookTitle c) (bookAuthor c)"
    and bf: "bonusFactors r = calculateBonusFactors (flagsOf c)"
    and fc: "finalCredits r =
         fst (calculateFinalCredits (conditionScore r) (demandScore r) (rarityScore r)
                (bonusFactors r))"
    by blast
  have c0: "0 \<le> conditionScore r"
    using calculateConditionScore_range [of "featuresOf v"] by (simp only: cs)
  have d1: "1 \<le> demandScore r"
    by (simp only: ds calculateDemandScore_ge_1)
  have r0: "0 \<le> rarityScore r"
    by (simp add: rs calculateRarityScore_def)
  have b0: "0 \<le> bonusFactors r"
    using calculateBonusFactors_range [of "flagsOf c"] by (simp only: bf)
  have lo: "3 / 10 \<le> finalCredits r"
    using finalCredits_lower [OF c0 d1 r0 b0] by (simp only: fc)
  then have "finalCredits r \<noteq> 0"
    by simp
  with r nr d1 lo calculateDemandScore_ge_1 [of title author] show ?thesis
    by auto
qed

theorem finalCredits_zero_iff_rejected_witness:
  "(\<not> shouldReject exampleAssessment \<and> isComplete exampleAssessment)
   \<and> (\<exists>r. assessBookConditionFlow numberToString (Some exampleAssessment) exampleInput = Inr r
          \<and> 1 \<le> demandScore r \<and> 0.3 \<le> finalCredits r \<and> finalCredits r \<noteq> 0)
   \<and> (\<exists>r. assessBookConditionFlow numberToString
               (Some (exampleAssessment\<lparr>shouldReject := True\<rparr>)) exampleInput = Inr r
          \<and> finalCredits r = 0)"
proof -
  have h: "\<not> shouldReject exampleAssessment \<and> isComplete exampleAssessment"
    by (simp add: exampleAssessment_def)
  have k: "shouldReject (exampleAssessment\<lparr>shouldReject := True\<rparr>)"
    by simp
  from finalCredits_zero_iff_rejected [of None None numberToString exampleAssessment exampleInput] h
  have a: "\<exists>r. assessBookConditionFlow numberToString (Some exampleAssessment) exampleInput = Inr r
          \<and> 1 \<le> demandScore r \<and> 0.3 \<le> finalCredits r \<and> finalCredits r \<noteq> 0"
    by blast
  from finalCredits_zero_iff_rejected [of None None numberToString
      "exampleAssessment\<lparr>shouldReject := True\<rparr>" exampleInput] k
  have b: "\<exists>r. assessBookConditionFlow numberToString
               (Some (exampleAssessment\<lparr>shouldReject := True\<rparr>)) exampleInput = Inr r
          \<and> finalCredits r = 0"
    by blast
  from h a b show ?thesis
    by blast
qed

end
